theory Spec2Isabelle
  imports Main "HOL-Library.Word"
begin

unbundle bit_operations_syntax

section \<open>Data model\<close>

text \<open>
  The source is Python: its integers are unbounded, so every register of the
  program is an \<open>int\<close> and the masks \<open>& 0xFFFFFFFF\<close> are written out.
  The input \<open>data\<close> is a \<open>bytes\<close> object; iterating over it yields
  the integers \<open>0..255\<close>, here \<open>uint\<close> of an 8-bit word.
\<close>

type_synonym byte = "8 word"
type_synonym bytes = "byte list"

datatype py_error = IndexError

text \<open>The class \<open>CRC32Calculator\<close>: its only instance attribute is the table.\<close>

record CRC32Calculator =
  crc_table :: "int list"

text \<open>The outcome of a method call, and the instance as the call leaves it.\<close>

type_synonym 'a outcome = "(py_error + 'a) \<times> CRC32Calculator"

definition POLYNOMIAL :: int where
  "POLYNOMIAL = 0x04C11DB7"

definition INITIAL_VALUE :: int where
  "INITIAL_VALUE = 0xFFFFFFFF"

definition FINAL_XOR :: int where
  "FINAL_XOR = 0xFFFFFFFF"

section \<open>The bit-wise division step\<close>

text \<open>
  The body of both inner loops \<open>for _ in range(8)\<close>:
  \<^verbatim>\<open>
    if crc & 0x80000000:
        crc = (crc << 1) ^ self.POLYNOMIAL
    else:
        crc = crc << 1
    crc &= 0xFFFFFFFF
  \<close>
\<close>

definition shift_step :: "int \<Rightarrow> int" where
  "shift_step crc =
     (let crc' = (if crc AND 0x80000000 \<noteq> 0
                  then push_bit 1 crc XOR POLYNOMIAL
                  else push_bit 1 crc)
      in crc' AND 0xFFFFFFFF)"

text \<open>\<open>for _ in range(n)\<close> around that body.\<close>

fun shift_rounds :: "nat \<Rightarrow> int \<Rightarrow> int" where
  "shift_rounds 0 crc = crc"
| "shift_rounds (Suc n) crc = shift_rounds n (shift_step crc)"

section \<open>Table generation\<close>

text \<open>
  \<open>_generate_crc_table\<close>: the loop \<open>for i in range(256)\<close> appends one
  entry per index to the list \<open>table\<close>, which starts empty.
\<close>

fun generate_loop :: "nat list \<Rightarrow> int list \<Rightarrow> int list" where
  "generate_loop [] table = table"
| "generate_loop (i # rest) table =
     (let crc = push_bit 24 (int i);
          crc = shift_rounds 8 crc
      in generate_loop rest (table @ [crc]))"

definition generate_crc_table :: "int list" where
  "generate_crc_table = generate_loop [0..<256] []"

text \<open>\<open>__init__\<close>.\<close>

definition init :: CRC32Calculator where
  "init = \<lparr>crc_table = generate_crc_table\<rparr>"

section \<open>The two strategies\<close>

text \<open>
  \<open>_calculate_crc_direct\<close>: the loop over the bytes, with the register
  as accumulator.
\<close>

fun direct_loop :: "int \<Rightarrow> bytes \<Rightarrow> int" where
  "direct_loop crc [] = crc"
| "direct_loop crc (b # data) =
     (let crc = crc XOR push_bit 24 (uint b);
          crc = shift_rounds 8 crc
      in direct_loop crc data)"

definition calculate_crc_direct :: "CRC32Calculator \<Rightarrow> bytes \<Rightarrow> int outcome" where
  "calculate_crc_direct self data =
     (let crc = direct_loop INITIAL_VALUE data
      in (Inr (crc XOR FINAL_XOR), self))"

text \<open>
  Python's \<open>xs[i]\<close> on a list: a negative index counts from the end, and an
  index out of range raises \<open>IndexError\<close>.
\<close>

definition getitem :: "int list \<Rightarrow> int \<Rightarrow> py_error + int" where
  "getitem xs i =
     (if 0 \<le> i \<and> i < int (length xs) then Inr (xs ! nat i)
      else if - int (length xs) \<le> i \<and> i < 0 then Inr (xs ! nat (int (length xs) + i))
      else Inl IndexError)"

text \<open>The index \<open>(crc >> 24) ^ byte\<close> of the table-driven loop.\<close>

definition table_index :: "int \<Rightarrow> byte \<Rightarrow> int" where
  "table_index crc b = drop_bit 24 crc XOR uint b"

text \<open>
  \<open>_calculate_crc_table\<close>: the loop over the bytes; an \<open>IndexError\<close> of
  the lookup leaves the loop and the method.
\<close>

fun table_loop :: "int list \<Rightarrow> int \<Rightarrow> bytes \<Rightarrow> py_error + int" where
  "table_loop table crc [] = Inr crc"
| "table_loop table crc (b # data) =
     (case getitem table (table_index crc b) of
        Inl e \<Rightarrow> Inl e
      | Inr t \<Rightarrow> table_loop table ((push_bit 8 crc XOR t) AND 0xFFFFFFFF) data)"

definition calculate_crc_table :: "CRC32Calculator \<Rightarrow> bytes \<Rightarrow> int outcome" where
  "calculate_crc_table self data =
     (case table_loop (crc_table self) INITIAL_VALUE data of
        Inl e \<Rightarrow> (Inl e, self)
      | Inr crc \<Rightarrow> (Inr (crc XOR FINAL_XOR), self))"

section \<open>The public operations\<close>

definition calculate_crc :: "CRC32Calculator \<Rightarrow> bytes \<Rightarrow> bool \<Rightarrow> int outcome" where
  "calculate_crc self data use_table =
     (if use_table then calculate_crc_table self data
      else calculate_crc_direct self data)"

text \<open>\<open>calculate_fcs\<close> calls \<open>calculate_crc\<close> with the default \<open>use_table=True\<close>.\<close>

definition calculate_fcs :: "CRC32Calculator \<Rightarrow> bytes \<Rightarrow> (int \<times> int) outcome" where
  "calculate_fcs self data =
     (case calculate_crc self data True of
        (Inl e, self') \<Rightarrow> (Inl e, self')
      | (Inr crc, self') \<Rightarrow>
          (let fcs = crc XOR 0xFFFFFFFF in (Inr (crc, fcs), self')))"

definition validate_frame ::
    "CRC32Calculator \<Rightarrow> bytes \<Rightarrow> int \<Rightarrow> (bool \<times> int \<times> int) outcome" where
  "validate_frame self data received_fcs =
     (case calculate_fcs self data of
        (Inl e, self') \<Rightarrow> (Inl e, self')
      | (Inr (calculated_crc, calculated_fcs), self') \<Rightarrow>
          (let is_valid = (calculated_fcs = received_fcs)
           in (Inr (is_valid, calculated_crc, calculated_fcs), self')))"

section \<open>The 32-bit register of the specification\<close>

text \<open>
  The specification describes the algorithm on a 32-bit register: one
  polynomial-division step shifts the register left by one and XORs the
  polynomial in when the most-significant bit was set; a table entry is the
  register \<open>i << 24\<close> after eight such steps. This is that description, on
  \<open>32 word\<close>, where the masking to 32 bits is the word's own.
\<close>

definition spec_division_step :: "32 word \<Rightarrow> 32 word" where
  "spec_division_step r =
     (if bit r 31 then push_bit 1 r XOR 0x04C11DB7 else push_bit 1 r)"

definition spec_table_entry :: "nat \<Rightarrow> 32 word" where
  "spec_table_entry i = (spec_division_step ^^ 8) (push_bit 24 (word_of_nat i))"

section \<open>The demonstration data\<close>

text \<open>\<open>example1_data = b"HELLO"\<close> of the demonstration in \<open>menu_principal\<close>.\<close>

definition example1_data :: bytes where
  "example1_data = [0x48, 0x45, 0x4C, 0x4C, 0x4F]"

section \<open>From the integers of the code to the 32-bit register\<close>

lemma msb_test_uint: "(uint (w :: 32 word) AND 0x80000000 \<noteq> 0) = bit w 31"
proof -
  have "(0x80000000 :: int) = 2 ^ 31" by simp
  then show ?thesis
    by (simp only: and_exp_eq_0_iff_not_bit bit_uint_iff) simp
qed

lemma mask32_uint: "k AND 0xFFFFFFFF = uint (word_of_int k :: 32 word)"
proof -
  have "(0xFFFFFFFF :: int) = mask 32" by (simp add: mask_eq_exp_minus_1)
  then show ?thesis
    by (simp only: uint_word_of_int_eq take_bit_eq_mask) simp
qed

lemma shift_step_uint: "shift_step (uint w) = uint (spec_division_step w)"
  unfolding shift_step_def Let_def mask32_uint msb_test_uint spec_division_step_def POLYNOMIAL_def
  by (simp add: of_int_xor_eq of_int_push_bit)

lemma shift_rounds_uint: "shift_rounds n (uint w) = uint ((spec_division_step ^^ n) w)"
  by (induction n arbitrary: w) (simp_all add: shift_step_uint funpow_swap1)

lemma spec_division_step_xor:
  "spec_division_step (a XOR b) = spec_division_step a XOR spec_division_step b"
  by (simp add: spec_division_step_def bit_xor_iff ac_simps)

lemma spec_division_rounds_xor:
  "(spec_division_step ^^ n) (a XOR b) =
     (spec_division_step ^^ n) a XOR (spec_division_step ^^ n) b"
  by (induction n) (simp_all add: spec_division_step_xor)

lemma spec_division_rounds_low:
  "k \<le> 8 \<Longrightarrow> (spec_division_step ^^ k) (take_bit 24 w) = push_bit k (take_bit 24 w)"
proof (induction k)
  case 0
  show ?case by simp
next
  case (Suc k)
  then have k: "k < 8" by simp
  then have "\<not> bit (push_bit k (take_bit 24 w)) 31"
    by (auto simp add: bit_push_bit_iff bit_take_bit_iff)
  with Suc k show ?case
    by (simp add: spec_division_step_def push_bit_push_bit)
qed

lemma register_split:
  "(w :: 32 word) XOR push_bit 24 (ucast (b :: byte)) =
     push_bit 24 (drop_bit 24 w XOR ucast b) XOR take_bit 24 w"
  by (rule bit_eqI) (auto simp add: bit_simps)

lemma push8_take24: "push_bit 8 (take_bit 24 (w :: 32 word)) = push_bit 8 w"
  by (rule bit_eqI) (auto simp add: bit_simps)

lemma byte_rounds_table:
  "(spec_division_step ^^ 8) (w XOR push_bit 24 (ucast (b :: byte))) =
     push_bit 8 w XOR (spec_division_step ^^ 8) (push_bit 24 (drop_bit 24 w XOR ucast b))"
  by (simp add: register_split [of w b] spec_division_rounds_xor spec_division_rounds_low
      push8_take24 xor.commute del: funpow.simps)


lemma generate_loop_eq:
  "generate_loop js table = table @ map (\<lambda>i. shift_rounds 8 (push_bit 24 (int i))) js"
  by (induction js arbitrary: table) (simp_all add: Let_def)

lemma length_generate_crc_table: "length generate_crc_table = 256"
  by (simp only: generate_crc_table_def generate_loop_eq append_Nil length_map length_upt)

lemma generate_crc_table_nth:
  "i < 256 \<Longrightarrow> generate_crc_table ! i = shift_rounds 8 (push_bit 24 (int i))"
  by (simp only: generate_crc_table_def generate_loop_eq append_Nil nth_map length_upt
      nth_upt diff_zero add_0)

lemma top_byte_uint:
  assumes "i < 256"
  shows "push_bit 24 (int i) = uint (push_bit 24 (word_of_nat i :: 32 word))"
proof -
  from assms have "take_bit 32 i = i"
    by (simp add: take_bit_nat_eq_self_iff)
  then have i: "uint (word_of_nat i :: 32 word) = int i"
    by (simp add: unsigned_of_nat)
  from assms have "push_bit 24 (int i) < 2 ^ 32"
    by (simp add: push_bit_eq_mult)
  moreover have "0 \<le> push_bit 24 (int i)"
    by simp
  ultimately have "take_bit 32 (push_bit 24 (int i)) = push_bit 24 (int i)"
    by (simp only: take_bit_int_eq_self)
  then show ?thesis
    by (simp only: unsigned_push_bit_eq i) simp
qed

lemma generate_crc_table_entry:
  assumes "i < 256"
  shows "generate_crc_table ! i = uint (spec_table_entry i)"
proof -
  have "generate_crc_table ! i = shift_rounds 8 (push_bit 24 (int i))"
    using assms by (rule generate_crc_table_nth)
  also have "\<dots> = shift_rounds 8 (uint (push_bit 24 (word_of_nat i :: 32 word)))"
    using assms by (simp only: top_byte_uint)
  also have "\<dots> = uint (spec_table_entry i)"
    by (simp only: shift_rounds_uint spec_table_entry_def)
  finally show ?thesis .
qed

lemma table_index_uint:
  "table_index (uint (w :: 32 word)) b = uint (drop_bit 24 w XOR ucast b)"
  by (intro bit_eqI) (auto simp add: table_index_def bit_simps dest: bit_imp_le_length)

lemma index_word_less: "uint (drop_bit 24 (w :: 32 word) XOR ucast (b :: byte)) < 256"
proof -
  have "take_bit 8 (drop_bit 24 w XOR ucast b) = drop_bit 24 w XOR ucast b"
    by (intro bit_eqI) (auto simp add: bit_simps dest: bit_imp_le_length)
  then have "uint (drop_bit 24 w XOR ucast b) = uint (take_bit 8 (drop_bit 24 w XOR ucast b))"
    by (rule arg_cong [symmetric])
  also have "\<dots> = take_bit 8 (uint (drop_bit 24 w XOR ucast b))"
    by (rule unsigned_take_bit_eq)
  also have "\<dots> < 2 ^ 8" by (rule take_bit_int_less_exp)
  finally show ?thesis by simp
qed

lemma table_index_range:
  "0 \<le> table_index (uint (w :: 32 word)) b \<and> table_index (uint w) b < 256"
  using index_word_less [of w b] by (simp only: table_index_uint) simp

lemma getitem_table:
  "getitem generate_crc_table (table_index (uint (w :: 32 word)) b) =
     Inr (uint ((spec_division_step ^^ 8) (push_bit 24 (drop_bit 24 w XOR ucast b))))"
proof -
  define x :: "32 word" where "x = drop_bit 24 w XOR ucast b"
  have "uint x < 256" unfolding x_def by (rule index_word_less)
  then have lt: "unat x < 256"
    by (simp only: unat_eq_nat_uint)
  have x: "word_of_nat (unat x) = x"
    by simp
  have "generate_crc_table ! unat x = uint (spec_table_entry (unat x))"
    using lt by (rule generate_crc_table_entry)
  also have "spec_table_entry (unat x) = (spec_division_step ^^ 8) (push_bit 24 x)"
    by (simp only: spec_table_entry_def x)
  finally have nth: "generate_crc_table ! unat x = uint ((spec_division_step ^^ 8) (push_bit 24 x))" .
  have "getitem generate_crc_table (uint x) = Inr (generate_crc_table ! unat x)"
    using \<open>uint x < 256\<close> by (simp add: getitem_def length_generate_crc_table)
  then have "getitem generate_crc_table (uint x) =
      Inr (uint ((spec_division_step ^^ 8) (push_bit 24 x)))"
    by (simp only: nth)
  then show ?thesis
    by (simp only: table_index_uint x_def)
qed

lemma table_step_uint:
  "(push_bit 8 (uint (w :: 32 word)) XOR uint (t :: 32 word)) AND 0xFFFFFFFF =
     uint (push_bit 8 w XOR t)"
  by (simp add: mask32_uint of_int_xor_eq of_int_push_bit)

lemma direct_xor_uint:
  "uint (w :: 32 word) XOR push_bit 24 (uint (b :: byte)) = uint (w XOR push_bit 24 (ucast b))"
  by (intro bit_eqI) (auto simp add: bit_simps dest: bit_imp_le_length)

lemma direct_step_uint:
  "shift_rounds 8 (uint (w :: 32 word) XOR push_bit 24 (uint (b :: byte))) =
     uint ((spec_division_step ^^ 8) (w XOR push_bit 24 (ucast b)))"
  by (simp only: direct_xor_uint shift_rounds_uint)

lemma direct_loop_uint: "\<exists>w'. direct_loop (uint (w :: 32 word)) data = uint (w' :: 32 word)"
proof (induction data arbitrary: w)
  case Nil
  show ?case by auto
next
  case (Cons b data)
  show ?case
    using Cons [of "(spec_division_step ^^ 8) (w XOR push_bit 24 (ucast b))"]
    by (simp only: direct_loop.simps Let_def direct_step_uint)
qed

lemma table_loop_direct:
  "table_loop generate_crc_table (uint (w :: 32 word)) data = Inr (direct_loop (uint w) data)"
proof (induction data arbitrary: w)
  case Nil
  show ?case by simp
next
  case (Cons b data)
  show ?case
    using Cons [of "(spec_division_step ^^ 8) (w XOR push_bit 24 (ucast b))"]
    by (simp only: table_loop.simps direct_loop.simps Let_def getitem_table sum.case
        table_step_uint direct_step_uint byte_rounds_table)
qed

lemma uint_all_ones: "uint (- 1 :: 32 word) = 0xFFFFFFFF"
  by (simp add: unsigned_minus_1_eq_mask mask_eq_exp_minus_1)

lemma INITIAL_VALUE_uint: "INITIAL_VALUE = uint (- 1 :: 32 word)"
  by (simp only: INITIAL_VALUE_def uint_all_ones)

lemma final_xor_uint: "uint (w :: 32 word) XOR 0xFFFFFFFF = uint (NOT w)"
  by (simp only: flip: uint_all_ones uint_xor) (simp add: bit.xor_one_right)

section \<open>The operations of a constructed calculator\<close>

lemma direct_loop_range:
  "0 \<le> direct_loop INITIAL_VALUE data \<and> direct_loop INITIAL_VALUE data < 2 ^ 32"
proof -
  obtain w' :: "32 word" where "direct_loop INITIAL_VALUE data = uint w'"
    unfolding INITIAL_VALUE_uint using direct_loop_uint by blast
  then show ?thesis
    using uint_lt2p [of w'] by simp
qed

lemma final_xor_range:
  assumes "0 \<le> k \<and> k < 2 ^ 32"
  shows "0 \<le> k XOR (0xFFFFFFFF :: int) \<and> k XOR 0xFFFFFFFF < 2 ^ 32"
proof -
  have "k XOR 0xFFFFFFFF < 2 ^ 32"
    using assms XOR_upper [of k 32 "0xFFFFFFFF"] by simp
  with assms show ?thesis
    by simp
qed

lemma table_loop_append:
  "table_loop table crc (xs @ ys) =
     (case table_loop table crc xs of Inl e \<Rightarrow> Inl e | Inr crc' \<Rightarrow> table_loop table crc' ys)"
  by (induction xs arbitrary: crc) (simp_all split: sum.splits)

lemma table_loop_init:
  "table_loop (crc_table init) INITIAL_VALUE data = Inr (direct_loop INITIAL_VALUE data)"
  unfolding INITIAL_VALUE_uint init_def by (simp only: CRC32Calculator.simps table_loop_direct)

lemma calculate_crc_table_init:
  "calculate_crc_table init data = (Inr (direct_loop INITIAL_VALUE data XOR FINAL_XOR), init)"
  by (simp only: calculate_crc_table_def table_loop_init sum.case)

lemma calculate_crc_init:
  "calculate_crc init data use_table = (Inr (direct_loop INITIAL_VALUE data XOR FINAL_XOR), init)"
  by (simp add: calculate_crc_def calculate_crc_table_init calculate_crc_direct_def)

lemma calculate_fcs_init:
  "calculate_fcs init data =
     (Inr (direct_loop INITIAL_VALUE data XOR FINAL_XOR,
           (direct_loop INITIAL_VALUE data XOR FINAL_XOR) XOR 0xFFFFFFFF), init)"
  by (simp add: calculate_fcs_def calculate_crc_init)

lemma validate_frame_init:
  "validate_frame init data received_fcs =
     (Inr ((direct_loop INITIAL_VALUE data XOR FINAL_XOR) XOR 0xFFFFFFFF = received_fcs,
           direct_loop INITIAL_VALUE data XOR FINAL_XOR,
           (direct_loop INITIAL_VALUE data XOR FINAL_XOR) XOR 0xFFFFFFFF), init)"
  by (simp add: validate_frame_def calculate_fcs_init)

lemma example1_register: "direct_loop INITIAL_VALUE example1_data = 2362953146"
  unfolding example1_data_def by code_simp

lemma example1_crc: "direct_loop INITIAL_VALUE example1_data XOR FINAL_XOR = 1932014149"
  by (simp add: example1_register FINAL_XOR_def)

lemma flip_bit_neq: "(k :: int) XOR 2 ^ n \<noteq> k"
proof
  assume "k XOR 2 ^ n = k"
  then have "(k XOR 2 ^ n) XOR k = k XOR k" by simp
  then have "(2 :: int) ^ n = 0" by (simp add: xor.commute xor.left_commute)
  then show False by simp
qed

section \<open>The claims\<close>

text \<open>
  C1. For every byte sequence \<open>d\<close> (the empty one, single bytes and sequences of
  any length, also beyond 256 bytes) the table-driven strategy and the direct
  bit-wise strategy of a constructed calculator return the same CRC value:
  \<open>calculate_crc(d, use_table=True) == calculate_crc(d, use_table=False)\<close>.
  Both calls return a value (neither raises), and it is the same one.
\<close>

theorem table_direct_equivalence:
  "calculate_crc init d True = calculate_crc init d False \<and>
   (\<exists>crc. fst (calculate_crc init d True) = Inr crc \<and>
          fst (calculate_crc init d False) = Inr crc)"
  by (simp add: calculate_crc_init)

text \<open>
  C2. The generated lookup table has exactly 256 entries, and for every index
  \<open>i\<close> in \<open>0..255\<close> its entry \<open>i\<close> is the 32-bit register that starts as
  \<open>i << 24\<close> after 8 polynomial-division steps with the polynomial
  \<open>0x04C11DB7\<close> (\<open>spec_table_entry\<close>, the specification's description on a
  32-bit word).
\<close>

theorem generated_table_entries:
  "length (crc_table init) = 256 \<and>
   (\<forall>i<256. getitem (crc_table init) (int i) = Inr (uint (spec_table_entry i)))"
  by (simp add: init_def length_generate_crc_table generate_crc_table_entry getitem_def)

theorem generated_table_entries_witness:
  "getitem (crc_table init) 0 = Inr 0 \<and>
   getitem (crc_table init) 1 = Inr 0x04C11DB7 \<and>
   getitem (crc_table init) 255 = Inr 0xB1F740B4"
proof -
  have e0: "uint (spec_table_entry 0) = 0" by code_simp
  have e1: "uint (spec_table_entry (Suc 0)) = 0x04C11DB7" by code_simp
  have e255: "uint (spec_table_entry 255) = 0xB1F740B4" by code_simp
  from generated_table_entries have
    "getitem (crc_table init) (int i) = Inr (uint (spec_table_entry i))" if "i < 256" for i
    using that by blast
  from this [of 0] this [of 1] this [of 255] show ?thesis
    by (simp add: e0 e1 e255)
qed

text \<open>
  C3. For every byte sequence \<open>d\<close> with the FCS \<open>fcs\<close> that
  \<open>calculate_fcs(d)\<close> computes, \<open>validate_frame(d, fcs)\<close> reports
  \<open>is_valid == True\<close>, and \<open>validate_frame(d, fcs ^ 2**k)\<close> reports
  \<open>is_valid == False\<close> for every bit position \<open>k\<close> (the 32 positions of the FCS
  among them). For \<open>d = b"HELLO"\<close> the correct FCS is \<open>F = 2362953146\<close>;
  validating against \<open>F ^ 0x00000001\<close> reports \<open>is_valid == False\<close> while the
  returned \<open>calculated_fcs\<close> is still \<open>F\<close>.
\<close>

theorem validate_frame_correctness:
  "(\<exists>crc fcs. fst (calculate_fcs init d) = Inr (crc, fcs) \<and>
      fst (validate_frame init d fcs) = Inr (True, crc, fcs) \<and>
      (\<forall>k. fst (validate_frame init d (fcs XOR 2 ^ k)) = Inr (False, crc, fcs))) \<and>
   fst (calculate_fcs init example1_data) = Inr (1932014149, 2362953146) \<and>
   fst (validate_frame init example1_data (2362953146 XOR 0x00000001)) =
     Inr (False, 1932014149, 2362953146)"
proof -
  have "fst (validate_frame init d (fcs XOR 2 ^ k)) =
      Inr (False, direct_loop INITIAL_VALUE d XOR FINAL_XOR, fcs)"
    if "fcs = (direct_loop INITIAL_VALUE d XOR FINAL_XOR) XOR 0xFFFFFFFF" for fcs k
    using that flip_bit_neq [of fcs k] by (simp add: validate_frame_init)
  then show ?thesis
    by (simp add: calculate_fcs_init validate_frame_init example1_crc)
qed

text \<open>
  C4. For every byte sequence \<open>d\<close>, \<open>calculate_fcs(d)\<close> returns the pair
  \<open>(crc, fcs)\<close> where \<open>crc\<close> is the value of \<open>calculate_crc(d)\<close> (with its
  default \<open>use_table=True\<close>) and \<open>fcs = crc ^ 0xFFFFFFFF\<close>; consequently
  \<open>fcs ^ crc == 0xFFFFFFFF\<close>.
\<close>

theorem fcs_complement_law:
  "\<exists>crc fcs. fst (calculate_crc init d True) = Inr crc \<and>
      fst (calculate_fcs init d) = Inr (crc, fcs) \<and>
      fcs = crc XOR 0xFFFFFFFF \<and> fcs XOR crc = 0xFFFFFFFF"
  by (simp add: calculate_crc_init calculate_fcs_init xor.commute xor.left_commute)

text \<open>
  C5. For every byte sequence \<open>d\<close> and every \<open>received_fcs\<close>,
  \<open>validate_frame(d, received_fcs)\<close> returns the triple
  \<open>(is_valid, calculated_crc, calculated_fcs)\<close> whose last two components are
  exactly the pair \<open>calculate_fcs(d)\<close> returns, and \<open>is_valid\<close> is true if and
  only if \<open>calculated_fcs == received_fcs\<close>.
\<close>

theorem validate_frame_contract:
  "\<exists>crc fcs. fst (calculate_fcs init d) = Inr (crc, fcs) \<and>
      fst (validate_frame init d received_fcs) = Inr (fcs = received_fcs, crc, fcs)"
  by (simp add: calculate_fcs_init validate_frame_init)

text \<open>
  C6. For the empty byte sequence the register stays \<open>0xFFFFFFFF\<close> through the
  loop of either strategy, and \<open>calculate_crc\<close> returns \<open>0x00000000\<close> with
  \<open>use_table\<close> false and true.
\<close>

theorem empty_input_crc:
  "direct_loop INITIAL_VALUE [] = 0xFFFFFFFF \<and>
   table_loop (crc_table init) INITIAL_VALUE [] = Inr 0xFFFFFFFF \<and>
   fst (calculate_crc init [] False) = Inr 0x00000000 \<and>
   fst (calculate_crc init [] True) = Inr 0x00000000"
  by (simp add: calculate_crc_def calculate_crc_table_def calculate_crc_direct_def
      INITIAL_VALUE_def FINAL_XOR_def)

text \<open>
  C7. In the table-driven strategy every table index is in bounds. Whatever
  bytes \<open>pre\<close> have been consumed, the loop has reached a register \<open>crc\<close>
  without raising, and for the next byte \<open>b\<close> the index
  \<open>(crc >> 24) ^ b\<close> lies in \<open>0..255\<close>, so the lookup returns an entry and not
  \<open>IndexError\<close>; hence the whole loop over any \<open>d\<close> ends with a register.
  (By \<open>table_loop_append\<close> the loop over \<open>pre @ b # post\<close> is the loop over
  \<open>pre\<close> continued from its register, so these are all the indices computed.)
\<close>

theorem table_index_in_bounds:
  "(\<exists>crc. table_loop (crc_table init) INITIAL_VALUE pre = Inr crc \<and>
      0 \<le> table_index crc b \<and> table_index crc b < 256 \<and>
      (\<exists>t. getitem (crc_table init) (table_index crc b) = Inr t)) \<and>
   (\<exists>crc. table_loop (crc_table init) INITIAL_VALUE d = Inr crc)"
proof -
  obtain w :: "32 word" where w: "direct_loop INITIAL_VALUE pre = uint w"
    unfolding INITIAL_VALUE_uint using direct_loop_uint by blast
  have "getitem (crc_table init) (table_index (uint w) b) =
      Inr (uint ((spec_division_step ^^ 8) (push_bit 24 (drop_bit 24 w XOR ucast b))))"
    unfolding init_def by (simp only: CRC32Calculator.simps getitem_table)
  with table_index_range [of w b] show ?thesis
    by (simp only: table_loop_init w) blast
qed

text \<open>
  C8. \<open>calculate_crc\<close>, \<open>calculate_fcs\<close> and \<open>validate_frame\<close> are
  deterministic on an instance: a second call with the same inputs, on the
  instance as the first call left it, returns the same output as the first.
\<close>

theorem operations_deterministic:
  "fst (calculate_crc (snd (calculate_crc self d use_table)) d use_table) =
     fst (calculate_crc self d use_table) \<and>
   fst (calculate_fcs (snd (calculate_fcs self d)) d) = fst (calculate_fcs self d) \<and>
   fst (validate_frame (snd (validate_frame self d received_fcs)) d received_fcs) =
     fst (validate_frame self d received_fcs)"
  by (simp add: calculate_crc_def calculate_crc_table_def calculate_crc_direct_def
      calculate_fcs_def validate_frame_def split: sum.splits prod.splits)

text \<open>
  C9. The table is built at construction (\<open>__init__\<close> stores the generated
  table) and no operation mutates it: \<open>calculate_crc\<close>, \<open>calculate_fcs\<close> and
  \<open>validate_frame\<close> leave the instance, and so its \<open>crc_table\<close>, as it was.
\<close>

theorem table_never_mutated:
  "crc_table init = generate_crc_table \<and>
   snd (calculate_crc self d use_table) = self \<and>
   snd (calculate_fcs self d) = self \<and>
   snd (validate_frame self d received_fcs) = self"
  by (simp add: init_def calculate_crc_def calculate_crc_table_def calculate_crc_direct_def
      calculate_fcs_def validate_frame_def split: sum.splits prod.splits)

text \<open>
  C10. For every byte sequence and both strategies the CRC, and the FCS derived
  from it, lie in \<open>0 \<le> value < 2^32\<close>. As \<open>validate_frame\<close> compares
  \<open>received_fcs\<close> by integer equality and does not mask it, every
  \<open>received_fcs\<close> outside that range (negative, or \<open>\<ge> 2^32\<close> even with the low
  32 bits of the correct FCS) yields \<open>is_valid == False\<close>.
\<close>

theorem crc_fcs_range:
  "\<exists>crc fcs. fst (calculate_crc init d True) = Inr crc \<and>
      fst (calculate_crc init d False) = Inr crc \<and>
      fst (calculate_fcs init d) = Inr (crc, fcs) \<and>
      0 \<le> crc \<and> crc < 2 ^ 32 \<and> 0 \<le> fcs \<and> fcs < 2 ^ 32 \<and>
      (\<forall>received_fcs. received_fcs < 0 \<or> 2 ^ 32 \<le> received_fcs \<longrightarrow>
         fst (validate_frame init d received_fcs) = Inr (False, crc, fcs))"
proof -
  let ?crc = "direct_loop INITIAL_VALUE d XOR FINAL_XOR"
  let ?fcs = "?crc XOR 0xFFFFFFFF"
  have crc: "0 \<le> ?crc \<and> ?crc < 2 ^ 32"
    unfolding FINAL_XOR_def using direct_loop_range by (rule final_xor_range)
  then have fcs: "0 \<le> ?fcs \<and> ?fcs < 2 ^ 32"
    by (rule final_xor_range)
  then have "?fcs \<noteq> r" if "r < 0 \<or> 2 ^ 32 \<le> r" for r
    using that by auto
  with crc fcs show ?thesis
    by (simp add: calculate_crc_init calculate_fcs_init validate_frame_init)
qed

theorem crc_fcs_range_witness:
  "fst (calculate_fcs init example1_data) = Inr (1932014149, 2362953146) \<and>
   fst (validate_frame init example1_data (2 ^ 32 + 2362953146)) =
     Inr (False, 1932014149, 2362953146) \<and>
   fst (validate_frame init example1_data (- 1)) = Inr (False, 1932014149, 2362953146)"
proof -
  have fcs: "fst (calculate_fcs init example1_data) = Inr (1932014149, 2362953146)"
    by (simp add: calculate_fcs_init example1_crc)
  from crc_fcs_range [of example1_data] obtain crc fcs where
    "fst (calculate_fcs init example1_data) = Inr (crc, fcs)" and
    r: "\<And>r. r < 0 \<or> 2 ^ 32 \<le> r \<Longrightarrow>
      fst (validate_frame init example1_data r) = Inr (False, crc, fcs)"
    by blast
  with fcs have "crc = 1932014149" "fcs = 2362953146"
    by simp_all
  with fcs r [of "2 ^ 32 + 2362953146"] r [of "- 1"] show ?thesis
    by simp
qed

end
